theory Spec2Isabelle
  imports Main "HOL-Library.Word" "HOL-Library.List_Lexorder" "HOL-Library.Char_ord"
begin

section \<open>Data model of \<^verbatim>\<open>process_handler.h\<close>\<close>

datatype ProcessType = RUST_MAIN | GO_INTEGRATION | PYTHON_CONTROLLER | FRONTEND_SERVER | CUSTOM

datatype CommMethod = STDIO | FILE_IPC | NAMED_PIPE | SHARED_MEMORY | TCP_SOCKET

datatype ProcessState = CREATED | STARTING | RUNNING | STOPPING | STOPPED | CRASHED | ZOMBIE

datatype MessageType = COMMAND | RESPONSE | EVENT | HEARTBEAT | SHUTDOWN | ERROR

text \<open>\<^verbatim>\<open>struct Message\<close>. The strings are byte strings, the timestamp is a \<^verbatim>\<open>uint64_t\<close>.\<close>

record Message =
  type :: MessageType
  source_process :: string
  target_process :: string
  command :: string
  data :: string
  timestamp :: "64 word"
  message_id :: string

text \<open>
  \<^verbatim>\<open>struct ProcessConfig\<close>. The durations are \<^verbatim>\<open>std::chrono::seconds\<close>, kept as their
  signed count of seconds; \<^verbatim>\<open>max_restart_attempts\<close> is an \<^verbatim>\<open>int\<close> that the code only
  compares, so no wrap-around can occur on it.
\<close>

record ProcessConfig =
  proc_type :: ProcessType
  name :: string
  executable_path :: string
  args :: "string list"
  env_vars :: "(string \<times> string) list"
  comm_methods :: "CommMethod list"
  auto_restart :: bool
  max_restart_attempts :: int
  restart_delay :: int
  enable_heartbeat :: bool
  heartbeat_interval :: int
  heartbeat_timeout :: int
  depends_on :: "string list"

text \<open>
  \<^verbatim>\<open>struct ProcessInfo\<close>. The handle is \<^verbatim>\<open>None\<close> for \<^verbatim>\<open>nullptr\<close>. The two time points
  (\<^verbatim>\<open>start_time\<close>, \<^verbatim>\<open>last_heartbeat\<close>) read the wall clock and are left out of the model.
\<close>

record ProcessInfo =
  config :: ProcessConfig
  state :: ProcessState
  platform_handle :: "nat option"
  pid :: "32 word"
  restart_count :: int
  last_error :: string

section \<open>Message encoding (\<^verbatim>\<open>Message::to_json\<close>, \<^verbatim>\<open>Message::from_json\<close>)\<close>

text \<open>Decimal output of \<^verbatim>\<open>operator<<\<close> on integers.\<close>

definition digit_char :: "nat \<Rightarrow> char" where
  "digit_char d = ''0123456789'' ! d"

fun show_nat :: "nat \<Rightarrow> string" where
  "show_nat n = (if n < 10 then [digit_char n] else show_nat (n div 10) @ [digit_char (n mod 10)])"

declare show_nat.simps [simp del]

definition show_int :: "int \<Rightarrow> string" where
  "show_int i = (if i < 0 then CHR ''-'' # show_nat (nat (- i)) else show_nat (nat i))"

text \<open>\<^verbatim>\<open>static_cast<int>(type)\<close>: the position of the enumerator in \<^verbatim>\<open>enum class MessageType\<close>.\<close>

fun MessageType_ordinal :: "MessageType \<Rightarrow> int" where
  "MessageType_ordinal COMMAND = 0"
| "MessageType_ordinal RESPONSE = 1"
| "MessageType_ordinal EVENT = 2"
| "MessageType_ordinal HEARTBEAT = 3"
| "MessageType_ordinal SHUTDOWN = 4"
| "MessageType_ordinal ERROR = 5"

definition to_json :: "Message \<Rightarrow> string" where
  "to_json msg =
     ''{''
     @ ''\"type\":\"'' @ show_int (MessageType_ordinal (type msg)) @ ''\",''
     @ ''\"source\":\"'' @ source_process msg @ ''\",''
     @ ''\"target\":\"'' @ target_process msg @ ''\",''
     @ ''\"command\":\"'' @ command msg @ ''\",''
     @ ''\"data\":'' @ data msg @ '',''
     @ ''\"timestamp\":'' @ show_nat (unat (timestamp msg)) @ '',''
     @ ''\"message_id\":\"'' @ message_id msg @ ''\"''
     @ ''}''"

text \<open>
  \<^verbatim>\<open>Message::from_json\<close> declares \<^verbatim>\<open>Message msg;\<close> and returns it without reading its
  argument. The five strings are default-constructed (empty); \<^verbatim>\<open>type\<close> and
  \<^verbatim>\<open>timestamp\<close> are left uninitialised, so the model takes whatever they hold as the
  two parameters \<open>junk_type\<close> and \<open>junk_timestamp\<close>.
\<close>

definition from_json :: "MessageType \<Rightarrow> 64 word \<Rightarrow> string \<Rightarrow> Message" where
  "from_json junk_type junk_timestamp json =
     \<lparr>type = junk_type, source_process = [], target_process = [], command = [],
      data = [], timestamp = junk_timestamp, message_id = []\<rparr>"

text \<open>
  \<^verbatim>\<open>StdioChannel::send\<close> (POSIX branch): the line handed to \<^verbatim>\<open>write\<close> and the returned
  flag; \<open>write_result\<close> is what the system call returns for that buffer.
\<close>

definition StdioChannel_send :: "(string \<Rightarrow> int) \<Rightarrow> Message \<Rightarrow> string \<times> bool" where
  "StdioChannel_send write_result msg =
     (let json = to_json msg @ [CHR 0x0A] in (json, write_result json > 0))"

section \<open>\<^verbatim>\<open>MessageValidator\<close>\<close>

definition is_safe_json :: "string \<Rightarrow> bool" where
  "is_safe_json json = (if length json > 1024 * 1024 then False else True)"

text \<open>
  \<^verbatim>\<open>validate_message(msg, error)\<close> returns its flag together with the contents of the
  reference parameter \<^verbatim>\<open>error\<close> afterwards (untouched when the message is accepted).
\<close>

definition validate_message :: "Message \<Rightarrow> string \<Rightarrow> bool \<times> string" where
  "validate_message msg error =
     (if source_process msg = [] then (False, ''Source process is empty'')
      else if target_process msg = [] then (False, ''Target process is empty'')
      else if command msg = [] then (False, ''Command is empty'')
      else if \<not> is_safe_json (data msg) then (False, ''Invalid JSON data'')
      else (True, error))"

section \<open>\<^verbatim>\<open>MessageRouter\<close>\<close>

text \<open>
  A handler is a callback \<^verbatim>\<open>std::function<void(const Message&)>\<close>. What it does to the
  rest of the program is a transformer of a state \<open>'w\<close>, and a call either returns or
  throws; in both cases the state is the one the handler has left behind. The table is
  the \<^verbatim>\<open>std::map\<close> from command to the vector of handlers.
\<close>

datatype 'w outcome = Returns 'w | Throws 'w

type_synonym 'w handler = "Message \<Rightarrow> 'w \<Rightarrow> 'w outcome"

type_synonym 'w MessageRouter = "string \<Rightarrow> 'w handler list option"

definition register_handler :: "string \<Rightarrow> 'w handler \<Rightarrow> 'w MessageRouter \<Rightarrow> 'w MessageRouter" where
  "register_handler cmd h handlers =
     handlers(cmd \<mapsto> (case handlers cmd of None \<Rightarrow> [] | Some hs \<Rightarrow> hs) @ [h])"

text \<open>
  The loop \<^verbatim>\<open>for (auto& handler : it->second) handler(msg);\<close>. There is no
  \<^verbatim>\<open>try\<close> around the call: an exception thrown by a handler leaves the loop and
  \<^verbatim>\<open>route_message\<close>, and the handlers after it are not called.
\<close>

fun run_handlers :: "'w handler list \<Rightarrow> Message \<Rightarrow> 'w \<Rightarrow> 'w outcome" where
  "run_handlers [] msg w = Returns w"
| "run_handlers (h # hs) msg w =
     (case h msg w of
        Throws w' \<Rightarrow> Throws w'
      | Returns w' \<Rightarrow> run_handlers hs msg w')"

definition route_message :: "Message \<Rightarrow> 'w MessageRouter \<Rightarrow> 'w \<Rightarrow> 'w outcome" where
  "route_message msg handlers w =
     (case handlers (command msg) of
        None \<Rightarrow> Returns w
      | Some hs \<Rightarrow> run_handlers hs msg w)"

definition unregister_all :: "'w MessageRouter \<Rightarrow> 'w MessageRouter" where
  "unregister_all handlers = Map.empty"

section \<open>\<^verbatim>\<open>ProcessManager\<close>\<close>

text \<open>
  What the supervisor asks of the operating system is recorded, in order, in a log. The
  model follows the POSIX branch of the source. \<^verbatim>\<open>fork\<close> either fails or returns the
  child's pid to the supervisor (the branch \<^verbatim>\<open>pid == 0\<close> runs in the child, which
  replaces itself by \<^verbatim>\<open>execvp\<close> or exits). The outcome of the \<open>k\<close>-th call of
  \<^verbatim>\<open>fork\<close> is given by a function of \<open>k\<close>, a parameter of every operation that spawns.
  Sleeps are logged in milliseconds.
\<close>

datatype fork_outcome = ForkFailed | ForkParent nat

datatype signal = SIGTERM | SIGKILL

datatype os_event =
    Fork fork_outcome
  | Kill "32 word" signal
  | Sleep int
  | MonitorThread string

text \<open>
  The state of a \<^verbatim>\<open>ProcessManager\<close>: the \<^verbatim>\<open>std::map\<close> of processes as the list of its
  entries in key order (the order of iteration), the flag \<^verbatim>\<open>running\<close>, and the log.
  The channel table is written at registration and at shutdown only and no operation
  below reads it; it is not part of the state. The mutex is not modelled: every
  operation runs to completion on its own.
\<close>

record ProcessManager =
  processes :: "(string \<times> ProcessInfo) list"
  running :: bool
  fork_calls :: nat
  os_log :: "os_event list"

definition new_ProcessManager :: ProcessManager where
  "new_ProcessManager = \<lparr>processes = [], running = False, fork_calls = 0, os_log = []\<rparr>"

definition find_process :: "string \<Rightarrow> ProcessManager \<Rightarrow> ProcessInfo option" where
  "find_process n m = map_of (processes m) n"

text \<open>A write through the reference \<^verbatim>\<open>info = it->second\<close> to the entry of \<open>n\<close>.\<close>

definition modify :: "string \<Rightarrow> (ProcessInfo \<Rightarrow> ProcessInfo) \<Rightarrow> ProcessManager \<Rightarrow> ProcessManager" where
  "modify n f m =
     m\<lparr>processes := map (\<lambda>(k, v). if k = n then (k, f v) else (k, v)) (processes m)\<rparr>"

definition sleep_for :: "int \<Rightarrow> ProcessManager \<Rightarrow> ProcessManager" where
  "sleep_for ms m = m\<lparr>os_log := os_log m @ [Sleep ms]\<rparr>"

definition kill :: "32 word \<Rightarrow> signal \<Rightarrow> ProcessManager \<Rightarrow> ProcessManager" where
  "kill p sig m = m\<lparr>os_log := os_log m @ [Kill p sig]\<rparr>"

definition fork :: "(nat \<Rightarrow> fork_outcome) \<Rightarrow> ProcessManager \<Rightarrow> fork_outcome \<times> ProcessManager" where
  "fork os m =
     (os (fork_calls m),
      m\<lparr>fork_calls := Suc (fork_calls m), os_log := os_log m @ [Fork (os (fork_calls m))]\<rparr>)"

text \<open>The record that \<^verbatim>\<open>register_process\<close> builds: \<^verbatim>\<open>restart_count\<close> starts at 0.\<close>

definition new_ProcessInfo :: "ProcessConfig \<Rightarrow> ProcessInfo" where
  "new_ProcessInfo cfg =
     \<lparr>config = cfg, state = CREATED, platform_handle = None, pid = 0,
      restart_count = 0, last_error = []\<rparr>"

definition register_process :: "ProcessConfig \<Rightarrow> ProcessManager \<Rightarrow> bool \<times> ProcessManager" where
  "register_process cfg m =
     (if find_process (name cfg) m \<noteq> None then (False, m)
      else (True, m\<lparr>processes := insort_key fst (name cfg, new_ProcessInfo cfg) (processes m)\<rparr>))"

definition spawn_process :: "(nat \<Rightarrow> fork_outcome) \<Rightarrow> string \<Rightarrow> ProcessManager \<Rightarrow> bool \<times> ProcessManager" where
  "spawn_process os n m =
     (case fork os m of
        (ForkFailed, m1) \<Rightarrow> (False, modify n (\<lambda>i. i\<lparr>last_error := ''Fork failed''\<rparr>) m1)
      | (ForkParent p, m1) \<Rightarrow>
          (True, modify n (\<lambda>i. i\<lparr>platform_handle := Some p, pid := of_nat p, state := RUNNING\<rparr>) m1))"

definition check_dependencies_ready :: "ProcessConfig \<Rightarrow> ProcessManager \<Rightarrow> bool" where
  "check_dependencies_ready cfg m =
     list_all (\<lambda>dep. case find_process dep m of None \<Rightarrow> False | Some i \<Rightarrow> state i = RUNNING)
       (depends_on cfg)"

definition start_process :: "(nat \<Rightarrow> fork_outcome) \<Rightarrow> string \<Rightarrow> ProcessManager \<Rightarrow> bool \<times> ProcessManager" where
  "start_process os n m =
     (case find_process n m of
        None \<Rightarrow> (False, m)
      | Some info \<Rightarrow>
          if \<not> check_dependencies_ready (config info) m then (False, m)
          else
            (case spawn_process os n (modify n (\<lambda>i. i\<lparr>state := STARTING\<rparr>) m) of
               (False, m2) \<Rightarrow> (False, modify n (\<lambda>i. i\<lparr>state := CRASHED\<rparr>) m2)
             | (True, m2) \<Rightarrow> (True, m2\<lparr>os_log := os_log m2 @ [MonitorThread n]\<rparr>)))"

definition stop_process :: "string \<Rightarrow> bool \<Rightarrow> ProcessManager \<Rightarrow> bool \<times> ProcessManager" where
  "stop_process n force m =
     (case find_process n m of
        None \<Rightarrow> (False, m)
      | Some info \<Rightarrow>
          let m1 = modify n (\<lambda>i. i\<lparr>state := STOPPING\<rparr>) m;
              m2 = (if force then kill (pid info) SIGKILL m1
                    else kill (pid info) SIGKILL (sleep_for 2000 (kill (pid info) SIGTERM m1)))
          in (True, modify n (\<lambda>i. i\<lparr>state := STOPPED, platform_handle := None, pid := 0\<rparr>) m2))"

definition restart_process :: "(nat \<Rightarrow> fork_outcome) \<Rightarrow> string \<Rightarrow> ProcessManager \<Rightarrow> bool \<times> ProcessManager" where
  "restart_process os n m =
     start_process os n (sleep_for 500 (snd (stop_process n False m)))"

text \<open>
  \<^verbatim>\<open>handle_process_crash\<close> reaches the record through \<^verbatim>\<open>processes[name]\<close>. Its only
  caller, \<^verbatim>\<open>monitor_process\<close>, has found the name just before; for a name that is not
  in the table \<^verbatim>\<open>operator[]\<close> would insert a record with uninitialised fields, which
  the model does not follow: the result is \<open>None\<close> there.
\<close>

definition handle_process_crash :: "(nat \<Rightarrow> fork_outcome) \<Rightarrow> string \<Rightarrow> ProcessManager \<Rightarrow> ProcessManager option" where
  "handle_process_crash os n m =
     (case find_process n m of
        None \<Rightarrow> None
      | Some info \<Rightarrow>
          let m1 = modify n (\<lambda>i. i\<lparr>state := CRASHED\<rparr>) m
          in if auto_restart (config info) \<and> restart_count info < max_restart_attempts (config info)
             then Some (snd (restart_process os n (sleep_for (restart_delay (config info) * 1000) m1)))
             else Some m1)"

text \<open>
  One \<^verbatim>\<open>for\<close> pass of \<^verbatim>\<open>start_all\<close> over the keys of the table (no step of the pass
  adds or removes a key); each entry is read as it is when the pass reaches it. The
  flag is \<^verbatim>\<open>progress\<close>.
\<close>

fun start_pass :: "(nat \<Rightarrow> fork_outcome) \<Rightarrow> string list \<Rightarrow> ProcessManager \<Rightarrow> bool \<Rightarrow> bool \<times> ProcessManager" where
  "start_pass os [] m progress = (progress, m)"
| "start_pass os (n # ns) m progress =
     (case find_process n m of
        None \<Rightarrow> start_pass os ns m progress
      | Some info \<Rightarrow>
          if state info = CREATED \<and> check_dependencies_ready (config info) m
          then start_pass os ns (snd (start_process os n m)) True
          else start_pass os ns m progress)"

definition created_count :: "ProcessManager \<Rightarrow> nat" where
  "created_count m = length (filter (\<lambda>kv. state (snd kv) = CREATED) (processes m))"

fun stop_pass :: "string list \<Rightarrow> ProcessManager \<Rightarrow> ProcessManager" where
  "stop_pass [] m = m"
| "stop_pass (n # ns) m =
     (case find_process n m of
        None \<Rightarrow> stop_pass ns m
      | Some info \<Rightarrow>
          if state info = RUNNING then stop_pass ns (snd (stop_process n False m))
          else stop_pass ns m)"

definition stop_all :: "ProcessManager \<Rightarrow> ProcessManager" where
  "stop_all m = stop_pass (map fst (processes m)) m"

definition shutdown :: "ProcessManager \<Rightarrow> ProcessManager" where
  "shutdown m = (stop_all (m\<lparr>running := False\<rparr>))\<lparr>processes := []\<rparr>"

definition get_process_state :: "string \<Rightarrow> ProcessManager \<Rightarrow> ProcessState" where
  "get_process_state n m = (case find_process n m of Some info \<Rightarrow> state info | None \<Rightarrow> STOPPED)"

definition get_all_processes :: "ProcessManager \<Rightarrow> ProcessInfo list" where
  "get_all_processes m = map snd (processes m)"

text \<open>
  The \<^verbatim>\<open>while (progress)\<close> loop of \<^verbatim>\<open>start_all\<close>: passes are repeated until one starts
  nothing. Every start in a pass takes a process out of \<^verbatim>\<open>CREATED\<close>, which is the
  measure of the termination proof below.
\<close>

function start_all :: "(nat \<Rightarrow> fork_outcome) \<Rightarrow> ProcessManager \<Rightarrow> ProcessManager" where
  "start_all os m =
     (let (progress, m') = start_pass os (map fst (processes m)) m False
      in if progress then start_all os m' else m')"
  by pat_completeness auto

section \<open>Atomic steps of the supervisor\<close>

text \<open>
  The writes to the process table, one rule per place of the source that makes one:
  the three public operations \<^verbatim>\<open>register_process\<close>, \<^verbatim>\<open>start_process\<close> and
  \<^verbatim>\<open>stop_process\<close>, a sleep, the assignment \<^verbatim>\<open>info.state = CRASHED\<close> of
  \<^verbatim>\<open>handle_process_crash\<close>, the assignments to \<^verbatim>\<open>running\<close> in \<^verbatim>\<open>run\<close> and
  \<^verbatim>\<open>shutdown\<close>, and \<^verbatim>\<open>processes.clear()\<close>. The composite operations
  (\<^verbatim>\<open>restart_process\<close>, \<^verbatim>\<open>handle_process_crash\<close>, \<^verbatim>\<open>start_all\<close>, \<^verbatim>\<open>stop_all\<close>,
  \<^verbatim>\<open>shutdown\<close>) are shown below to be sequences of these steps.
\<close>

inductive step :: "ProcessManager \<Rightarrow> ProcessManager \<Rightarrow> bool" where
  step_register: "step m (snd (register_process cfg m))"
| step_start: "step m (snd (start_process os n m))"
| step_stop: "step m (snd (stop_process n force m))"
| step_sleep: "step m (sleep_for ms m)"
| step_crash: "step m (modify n (\<lambda>i. i\<lparr>state := CRASHED\<rparr>) m)"
| step_running: "step m (m\<lparr>running := b\<rparr>)"
| step_clear: "step m (m\<lparr>processes := []\<rparr>)"

text \<open>
  Not part of the source: the record of a process after a \<^verbatim>\<open>start_process\<close> that got
  past its two checks, by the outcome of \<^verbatim>\<open>fork\<close>. It is used to state what
  \<^verbatim>\<open>start_process\<close> computes.
\<close>

definition started :: "fork_outcome \<Rightarrow> ProcessInfo \<Rightarrow> ProcessInfo" where
  "started r i =
     (case r of
        ForkFailed \<Rightarrow> i\<lparr>state := CRASHED, last_error := ''Fork failed''\<rparr>
      | ForkParent p \<Rightarrow> i\<lparr>state := RUNNING, platform_handle := Some p, pid := of_nat p\<rparr>)"

text \<open>
  Not part of the source: what a run of starts from \<open>m0\<close> to \<open>m\<close> has kept. Every
  process running in \<open>m0\<close> is still running, no configuration has changed, and every
  process that runs now and did not in \<open>m0\<close> has all its dependencies registered and
  running now.
\<close>

definition started_in_order :: "ProcessManager \<Rightarrow> ProcessManager \<Rightarrow> bool" where
  "started_in_order m0 m \<longleftrightarrow>
     (\<forall>k. (get_process_state k m0 = RUNNING \<longrightarrow> get_process_state k m = RUNNING)
        \<and> map_option config (find_process k m) = map_option config (find_process k m0)
        \<and> (\<forall>info. get_process_state k m0 \<noteq> RUNNING \<longrightarrow> find_process k m = Some info \<longrightarrow>
              state info = RUNNING \<longrightarrow> check_dependencies_ready (config info) m))"

section \<open>Concrete inputs\<close>

text \<open>The envelope of the routing scenario, and the same envelope with a payload that is not JSON.\<close>

definition ping_msg :: Message where
  "ping_msg =
     \<lparr>type = COMMAND, source_process = ''a'', target_process = ''sup'', command = ''ping'',
      data = ''{}'', timestamp = 1, message_id = ''m1''\<rparr>"

definition unparsable_msg :: Message where
  "unparsable_msg = ping_msg\<lparr>data := ''{''\<rparr>"

text \<open>
  A configuration with automatic restart and at most two restart attempts, an operating
  system whose every \<^verbatim>\<open>fork\<close> succeeds, a supervisor in which \<^verbatim>\<open>X\<close> is running, one
  in which \<^verbatim>\<open>A\<close>, which depends on \<^verbatim>\<open>Z\<close>, and \<^verbatim>\<open>Z\<close> are registered, and one in which
  \<^verbatim>\<open>A\<close> is running and \<^verbatim>\<open>B\<close>, which depends on \<^verbatim>\<open>A\<close>, is registered.
\<close>

definition test_config :: "string \<Rightarrow> string list \<Rightarrow> ProcessConfig" where
  "test_config nm deps =
     \<lparr>proc_type = CUSTOM, name = nm, executable_path = ''/bin/false'', args = [], env_vars = [],
      comm_methods = [], auto_restart = True, max_restart_attempts = 2, restart_delay = 1,
      enable_heartbeat = False, heartbeat_interval = 5, heartbeat_timeout = 15, depends_on = deps\<rparr>"

definition os_ok :: "nat \<Rightarrow> fork_outcome" where
  "os_ok k = ForkParent (100 + k)"

definition m_X :: ProcessManager where
  "m_X = snd (start_process os_ok ''X''
            (snd (register_process (test_config ''X'' []) new_ProcessManager)))"

definition m_AZ :: ProcessManager where
  "m_AZ = snd (register_process (test_config ''Z'' [])
            (snd (register_process (test_config ''A'' [''Z'']) new_ProcessManager)))"

definition m_AB :: ProcessManager where
  "m_AB = snd (register_process (test_config ''B'' [''A''])
            (snd (start_process os_ok ''A''
              (snd (register_process (test_config ''A'' []) new_ProcessManager)))))"

section \<open>Basic facts\<close>

subsection \<open>Decimal output\<close>

lemma show_nat_digit: "n < 10 \<Longrightarrow> show_nat n = [digit_char n]"
  by (simp add: show_nat.simps)

lemma show_ordinal:
  "show_int (MessageType_ordinal t) =
     [case t of COMMAND \<Rightarrow> CHR ''0'' | RESPONSE \<Rightarrow> CHR ''1'' | EVENT \<Rightarrow> CHR ''2''
      | HEARTBEAT \<Rightarrow> CHR ''3'' | SHUTDOWN \<Rightarrow> CHR ''4'' | ERROR \<Rightarrow> CHR ''5'']"
  by (cases t) (simp_all add: show_int_def show_nat_digit digit_char_def)

lemma to_json_ping_msg:
  "to_json ping_msg =
     ''{\"type\":\"0\",\"source\":\"a\",\"target\":\"sup\",\"command\":\"ping\",\"data\":{},\"timestamp\":1,\"message_id\":\"m1\"}''"
  by (simp add: to_json_def ping_msg_def show_int_def show_nat_digit digit_char_def)

subsection \<open>The handlers of a command\<close>

lemma run_handlers_append:
  "run_handlers (xs @ ys) msg w =
     (case run_handlers xs msg w of
        Throws w' \<Rightarrow> Throws w'
      | Returns w' \<Rightarrow> run_handlers ys msg w')"
  by (induction xs arbitrary: w) (auto split: outcome.splits)

lemma register_handler_twice:
  "register_handler cmd h2 (register_handler cmd h1 handlers) cmd =
     Some ((case handlers cmd of None \<Rightarrow> [] | Some hs \<Rightarrow> hs) @ [h1, h2])"
  by (simp add: register_handler_def split: option.splits)

lemma route_message_registered:
  "route_message msg
       (register_handler (command msg) h2 (register_handler (command msg) h1 handlers)) w =
     (case route_message msg handlers w of
        Throws w' \<Rightarrow> Throws w'
      | Returns w0 \<Rightarrow> (case h1 msg w0 of Throws w1 \<Rightarrow> Throws w1 | Returns w1 \<Rightarrow> h2 msg w1))"
  by (cases "handlers (command msg)")
     (auto simp add: route_message_def register_handler_twice run_handlers_append
        split: outcome.splits)

subsection \<open>The process table\<close>

lemma map_of_modify_entries:
  "map_of (map (\<lambda>(k, v). if k = n then (k, f v) else (k, v)) xs) k' =
     (if k' = n then map_option f (map_of xs n) else map_of xs k')"
  by (induction xs) auto

lemma find_modify:
  "find_process k (modify n f m) =
     (if k = n then map_option f (find_process n m) else find_process k m)"
  by (simp add: find_process_def modify_def map_of_modify_entries)

lemma modify_fields [simp]:
  "running (modify n f m) = running m"
  "fork_calls (modify n f m) = fork_calls m"
  "os_log (modify n f m) = os_log m"
  by (simp_all add: modify_def)

lemma find_env [simp]:
  "find_process k (sleep_for ms m) = find_process k m"
  "find_process k (kill p sg m) = find_process k m"
  "find_process k (snd (fork os m)) = find_process k m"
  "find_process k (m\<lparr>os_log := l\<rparr>) = find_process k m"
  "find_process k (m\<lparr>running := b\<rparr>) = find_process k m"
  "find_process k (m\<lparr>fork_calls := c\<rparr>) = find_process k m"
  by (simp_all add: find_process_def sleep_for_def kill_def fork_def)

lemma map_of_insort_key:
  "map_of (insort_key fst (k, v) xs) = (map_of xs)(k \<mapsto> v)"
  by (induction xs) (auto simp add: fun_eq_iff)

lemma find_register:
  "find_process k (snd (register_process cfg m)) =
     (if k = name cfg \<and> find_process (name cfg) m = None then Some (new_ProcessInfo cfg)
      else find_process k m)"
  by (simp add: register_process_def find_process_def map_of_insort_key)

subsection \<open>What \<^verbatim>\<open>start_process\<close> and \<^verbatim>\<open>stop_process\<close> compute\<close>

lemma start_process_refused:
  "find_process n m = None
     \<or> (\<exists>info. find_process n m = Some info \<and> \<not> check_dependencies_ready (config info) m)
   \<Longrightarrow> start_process os n m = (False, m)"
  by (auto simp add: start_process_def)

lemma start_process_spawns:
  assumes "find_process n m = Some info" "check_dependencies_ready (config info) m"
  shows "start_process os n m =
     (os (fork_calls m) \<noteq> ForkFailed,
      (modify n (started (os (fork_calls m))) m)
        \<lparr>fork_calls := Suc (fork_calls m),
         os_log := os_log m @ Fork (os (fork_calls m)) #
            (case os (fork_calls m) of ForkFailed \<Rightarrow> [] | ForkParent p \<Rightarrow> [MonitorThread n])\<rparr>)"
  using assms
  by (cases "os (fork_calls m)")
     (simp_all add: start_process_def spawn_process_def fork_def modify_def started_def comp_def
        case_prod_beta')

lemma find_start:
  "find_process k (snd (start_process os n m)) =
     (case find_process n m of
        None \<Rightarrow> find_process k m
      | Some info \<Rightarrow>
          if k = n \<and> check_dependencies_ready (config info) m
          then Some (started (os (fork_calls m)) info) else find_process k m)"
proof (cases "find_process n m")
  case None
  then show ?thesis by (simp add: start_process_refused)
next
  case (Some info)
  show ?thesis
  proof (cases "check_dependencies_ready (config info) m")
    case True
    show ?thesis
      by (simp add: start_process_spawns [OF Some True] Some True find_modify)
  next
    case False
    with Some show ?thesis by (simp add: start_process_refused)
  qed
qed

lemma stop_process_result:
  "stop_process n force m =
     (case find_process n m of
        None \<Rightarrow> (False, m)
      | Some info \<Rightarrow> (True,
          (modify n (\<lambda>i. i\<lparr>state := STOPPED, platform_handle := None, pid := 0\<rparr>) m)
            \<lparr>os_log := os_log m @ (if force then [Kill (pid info) SIGKILL]
                 else [Kill (pid info) SIGTERM, Sleep 2000, Kill (pid info) SIGKILL])\<rparr>))"
  by (simp add: stop_process_def Let_def modify_def kill_def sleep_for_def comp_def case_prod_beta'
        split: option.splits)

lemma find_stop:
  "find_process k (snd (stop_process n force m)) =
     (if k = n
      then map_option (\<lambda>i. i\<lparr>state := STOPPED, platform_handle := None, pid := 0\<rparr>) (find_process n m)
      else find_process k m)"
  by (simp add: stop_process_result find_modify split: option.splits)

lemma config_started [simp]: "config (started r i) = config i"
  by (cases r) (simp_all add: started_def)

lemma restart_count_started [simp]: "restart_count (started r i) = restart_count i"
  by (cases r) (simp_all add: started_def)

lemma started_not_created: "state (started r v) \<noteq> CREATED"
  by (cases r) (simp_all add: started_def)

lemma check_dependencies_ready_cong:
  assumes same: "\<And>d. d \<in> set (depends_on c) \<Longrightarrow>
     map_option state (find_process d m') = map_option state (find_process d m)"
  shows "check_dependencies_ready c m' = check_dependencies_ready c m"
proof -
  have "(case find_process d m' of None \<Rightarrow> False | Some i \<Rightarrow> state i = RUNNING) =
        (case find_process d m of None \<Rightarrow> False | Some i \<Rightarrow> state i = RUNNING)"
    if "d \<in> set (depends_on c)" for d
    using same [OF that] by (cases "find_process d m'"; cases "find_process d m") simp_all
  then show ?thesis
    by (simp add: check_dependencies_ready_def list_all_iff)
qed

lemma check_dependencies_readyD:
  "check_dependencies_ready c m \<Longrightarrow> d \<in> set (depends_on c) \<Longrightarrow> get_process_state d m = RUNNING"
  by (auto simp add: check_dependencies_ready_def list_all_iff get_process_state_def
        split: option.splits)

subsection \<open>Termination of \<^verbatim>\<open>start_all\<close>\<close>

lemma created_after_modify:
  assumes "\<And>v. state (g v) \<noteq> CREATED"
  shows "length (filter (\<lambda>kv. state (snd kv) = CREATED)
            (map (\<lambda>(k, v). if k = n then (k, g v) else (k, v)) xs))
         \<le> length (filter (\<lambda>kv. state (snd kv) = CREATED) (xs :: (string \<times> ProcessInfo) list))"
  using assms by (induction xs) (auto split: if_splits)

lemma created_after_modify_less:
  assumes "\<And>v. state (g v) \<noteq> CREATED" "map_of xs n = Some info" "state info = CREATED"
  shows "length (filter (\<lambda>kv. state (snd kv) = CREATED)
            (map (\<lambda>(k, v). if k = n then (k, g v) else (k, v)) xs))
         < length (filter (\<lambda>kv. state (snd kv) = CREATED) (xs :: (string \<times> ProcessInfo) list))"
  using assms(2,3)
proof (induction xs)
  case Nil
  then show ?case by simp
next
  case (Cons x xs)
  obtain k v where x: "x = (k, v)" by (cases x)
  show ?case
  proof (cases "k = n")
    case True
    with Cons.prems x have "state v = CREATED" by simp
    with True x show ?thesis
      using created_after_modify [where g = g and n = n and xs = xs]
      by (simp add: assms(1) le_imp_less_Suc)
  next
    case False
    with Cons x show ?thesis by simp
  qed
qed

lemma created_count_start:
  assumes "find_process n m = Some info" "check_dependencies_ready (config info) m"
    and "state info = CREATED"
  shows "created_count (snd (start_process os n m)) < created_count m"
  using created_after_modify_less
          [where g = "started (os (fork_calls m))" and xs = "processes m" and n = n and info = info]
        assms
  by (simp add: start_process_spawns [OF assms(1,2)] created_count_def modify_def
        started_not_created find_process_def)

lemma start_pass_created:
  "start_pass os ns m p = (p', m') \<Longrightarrow>
     created_count m' \<le> created_count m \<and> (p' \<longrightarrow> p \<or> created_count m' < created_count m)"
proof (induction ns arbitrary: m p)
  case Nil
  then show ?case by simp
next
  case (Cons n ns)
  show ?case
  proof (cases "find_process n m")
    case None
    with Cons show ?thesis by simp
  next
    case (Some info)
    show ?thesis
    proof (cases "state info = CREATED \<and> check_dependencies_ready (config info) m")
      case True
      then have less: "created_count (snd (start_process os n m)) < created_count m"
        using created_count_start [OF Some] by simp
      from Cons.prems Some True
      have "start_pass os ns (snd (start_process os n m)) True = (p', m')" by simp
      from Cons.IH [OF this] less show ?thesis by auto
    next
      case False
      with Cons.prems Some have "start_pass os ns m p = (p', m')" by auto
      from Cons.IH [OF this] show ?thesis .
    qed
  qed
qed

termination start_all
proof (relation "measure (\<lambda>(os, m). created_count m)")
  show "wf (measure (\<lambda>(os, m). created_count m))" by simp
next
  fix os m x progress m'
  assume "x = start_pass os (map fst (processes m)) m False" "(progress, m') = x" "progress"
  then have "start_pass os (map fst (processes m)) m False = (True, m')" by simp
  from start_pass_created [OF this]
  show "((os, m'), os, m) \<in> measure (\<lambda>(os, m). created_count m)" by simp
qed

subsection \<open>The composite operations are sequences of steps\<close>

lemma restart_process_steps: "step\<^sup>*\<^sup>* m (snd (restart_process os n m))"
proof -
  have "step m (snd (stop_process n False m))" by (rule step_stop)
  moreover have "step (snd (stop_process n False m)) (sleep_for 500 (snd (stop_process n False m)))"
    by (rule step_sleep)
  moreover have "step (sleep_for 500 (snd (stop_process n False m))) (snd (restart_process os n m))"
    unfolding restart_process_def by (rule step_start)
  ultimately show ?thesis by (meson rtranclp.rtrancl_into_rtrancl rtranclp.rtrancl_refl)
qed

lemma handle_process_crash_steps:
  assumes "handle_process_crash os n m = Some m'"
  shows "step\<^sup>*\<^sup>* m m'"
proof -
  let ?m1 = "modify n (\<lambda>i. i\<lparr>state := CRASHED\<rparr>) m"
  have 1: "step m ?m1" by (rule step_crash)
  from assms obtain info where info: "find_process n m = Some info"
    by (auto simp add: handle_process_crash_def split: option.splits)
  show ?thesis
  proof (cases "auto_restart (config info) \<and> restart_count info < max_restart_attempts (config info)")
    case True
    let ?m2 = "sleep_for (restart_delay (config info) * 1000) ?m1"
    from True info assms have m': "m' = snd (restart_process os n ?m2)"
      by (simp add: handle_process_crash_def Let_def)
    have "step ?m1 ?m2" by (rule step_sleep)
    with 1 have "step\<^sup>*\<^sup>* m ?m2" by (meson rtranclp.rtrancl_into_rtrancl rtranclp.rtrancl_refl)
    with restart_process_steps [of ?m2 os n] show ?thesis unfolding m' by (meson rtranclp_trans)
  next
    case False
    with info assms have "m' = ?m1" by (auto simp add: handle_process_crash_def Let_def)
    with 1 show ?thesis by blast
  qed
qed

lemma start_pass_steps: "step\<^sup>*\<^sup>* m (snd (start_pass os ns m p))"
proof (induction ns arbitrary: m p)
  case Nil
  show ?case by simp
next
  case (Cons n ns)
  show ?case
  proof (cases "find_process n m")
    case None
    with Cons show ?thesis by simp
  next
    case (Some info)
    show ?thesis
    proof (cases "state info = CREATED \<and> check_dependencies_ready (config info) m")
      case True
      have "step m (snd (start_process os n m))" by (rule step_start)
      with Cons [of "snd (start_process os n m)" True] Some True show ?thesis
        by (simp add: converse_rtranclp_into_rtranclp)
    next
      case False
      with Cons [of m p] Some show ?thesis by auto
    qed
  qed
qed

lemma start_all_steps: "step\<^sup>*\<^sup>* m (start_all os m)"
proof (induction os m rule: start_all.induct)
  case (1 os m)
  obtain p m' where pass: "start_pass os (map fst (processes m)) m False = (p, m')"
    by (cases "start_pass os (map fst (processes m)) m False")
  have a: "step\<^sup>*\<^sup>* m m'"
    using start_pass_steps [of m os "map fst (processes m)" False] pass by simp
  show ?case
  proof (cases p)
    case True
    with 1 [OF pass [symmetric] refl] pass a show ?thesis
      by (subst start_all.simps) (simp add: rtranclp_trans)
  next
    case False
    with pass a show ?thesis by (subst start_all.simps) simp
  qed
qed

lemma stop_pass_steps: "step\<^sup>*\<^sup>* m (stop_pass ns m)"
proof (induction ns arbitrary: m)
  case Nil
  show ?case by simp
next
  case (Cons n ns)
  have "step m (snd (stop_process n False m))" by (rule step_stop)
  with Cons [of "snd (stop_process n False m)"] Cons [of m] show ?case
    by (auto simp add: converse_rtranclp_into_rtranclp split: option.splits)
qed

lemma stop_all_steps: "step\<^sup>*\<^sup>* m (stop_all m)"
  unfolding stop_all_def by (rule stop_pass_steps)

lemma shutdown_steps: "step\<^sup>*\<^sup>* m (shutdown m)"
proof -
  have "step m (m\<lparr>running := False\<rparr>)" by (rule step_running)
  moreover have "step\<^sup>*\<^sup>* (m\<lparr>running := False\<rparr>) (stop_all (m\<lparr>running := False\<rparr>))"
    by (rule stop_all_steps)
  moreover have "step (stop_all (m\<lparr>running := False\<rparr>)) (shutdown m)"
    unfolding shutdown_def by (rule step_clear)
  ultimately show ?thesis
    by (meson converse_rtranclp_into_rtranclp rtranclp.rtrancl_into_rtrancl)
qed

subsection \<open>A step that takes a process to \<^verbatim>\<open>RUNNING\<close>\<close>

text \<open>
  Only \<^verbatim>\<open>start_process\<close> does, on a registered process whose configuration it keeps,
  and past its test of the dependencies.
\<close>

lemma step_to_running:
  assumes "step m m'" "get_process_state n m \<noteq> RUNNING"
    and "find_process n m' = Some info'" "state info' = RUNNING"
  shows "check_dependencies_ready (config info') m \<and> check_dependencies_ready (config info') m'
    \<and> (\<exists>info. find_process n m = Some info \<and> config info = config info')"
  using assms(1)
proof cases
  case (step_register cfg)
  with assms(2-) show ?thesis
    by (auto simp add: find_register get_process_state_def new_ProcessInfo_def split: if_splits)
next
  case (step_start os k)
  show ?thesis
  proof (cases "find_process k m")
    case None
    with assms(2-) step_start show ?thesis
      by (simp add: find_start get_process_state_def)
  next
    case (Some info)
    from assms(2-) step_start Some
    have kn: "k = n" and ready: "check_dependencies_ready (config info) m"
      and info': "info' = started (os (fork_calls m)) info"
      by (auto simp add: find_start get_process_state_def split: if_splits)
    have "n \<notin> set (depends_on (config info))"
      using check_dependencies_readyD [OF ready] assms(2) by blast
    then have "check_dependencies_ready (config info) m' = check_dependencies_ready (config info) m"
      unfolding step_start kn
      by (intro check_dependencies_ready_cong) (auto simp add: find_start Some [unfolded kn])
    with ready info' Some kn show ?thesis by simp
  qed
next
  case (step_stop k force)
  with assms(2-) show ?thesis
    by (auto simp add: find_stop get_process_state_def split: if_splits)
next
  case (step_sleep ms)
  with assms(2-) show ?thesis by (simp add: get_process_state_def)
next
  case (step_crash k)
  with assms(2-) show ?thesis
    by (auto simp add: find_modify get_process_state_def split: if_splits)
next
  case (step_running b)
  with assms(2-) show ?thesis by (simp add: get_process_state_def)
next
  case step_clear
  with assms(3) show ?thesis by (simp add: find_process_def)
qed

subsection \<open>\<^verbatim>\<open>start_all\<close> starts dependencies first\<close>

lemma started_in_order_refl: "started_in_order m m"
  by (auto simp add: started_in_order_def get_process_state_def)

lemma check_dependencies_ready_start:
  assumes "check_dependencies_ready c m" "get_process_state n m \<noteq> RUNNING"
  shows "check_dependencies_ready c (snd (start_process os n m))"
proof -
  have "n \<notin> set (depends_on c)"
    using check_dependencies_readyD [OF assms(1)] assms(2) by blast
  then have "check_dependencies_ready c (snd (start_process os n m)) = check_dependencies_ready c m"
    by (intro check_dependencies_ready_cong) (auto simp add: find_start split: option.splits)
  with assms(1) show ?thesis by simp
qed

lemma started_in_order_start:
  assumes inv: "started_in_order m0 m"
    and n: "find_process n m = Some info" "state info = CREATED"
      "check_dependencies_ready (config info) m"
  shows "started_in_order m0 (snd (start_process os n m))"
proof -
  let ?m1 = "snd (start_process os n m)"
  have nr: "get_process_state n m \<noteq> RUNNING"
    using n by (simp add: get_process_state_def)
  have f: "find_process k ?m1 = (if k = n then Some (started (os (fork_calls m)) info) else find_process k m)" for k
    using n by (simp add: find_start)
  have a: "get_process_state k ?m1 = RUNNING" if "get_process_state k m0 = RUNNING" for k
  proof -
    from inv that have "get_process_state k m = RUNNING" by (simp add: started_in_order_def)
    with nr have "k \<noteq> n" by auto
    with \<open>get_process_state k m = RUNNING\<close> show ?thesis by (simp add: get_process_state_def f)
  qed
  have b: "map_option config (find_process k ?m1) = map_option config (find_process k m0)" for k
  proof -
    from inv have "map_option config (find_process k m) = map_option config (find_process k m0)"
      by (simp add: started_in_order_def)
    then show ?thesis using n by (auto simp add: f)
  qed
  have c: "check_dependencies_ready (config i) ?m1"
    if "get_process_state k m0 \<noteq> RUNNING" "find_process k ?m1 = Some i" "state i = RUNNING" for k i
  proof (cases "k = n")
    case True
    with that f have "config i = config info" by auto
    with check_dependencies_ready_start [OF n(3) nr] show ?thesis by simp
  next
    case False
    with that f have "find_process k m = Some i" by simp
    with inv that have "check_dependencies_ready (config i) m" by (simp add: started_in_order_def)
    from check_dependencies_ready_start [OF this nr] show ?thesis .
  qed
  from a b c show ?thesis unfolding started_in_order_def by blast
qed

lemma started_in_order_pass:
  "started_in_order m0 m \<Longrightarrow> started_in_order m0 (snd (start_pass os ns m p))"
proof (induction ns arbitrary: m p)
  case Nil
  then show ?case by simp
next
  case (Cons n ns)
  show ?case
  proof (cases "find_process n m")
    case None
    with Cons show ?thesis by simp
  next
    case (Some info)
    show ?thesis
    proof (cases "state info = CREATED \<and> check_dependencies_ready (config info) m")
      case True
      with started_in_order_start [OF Cons.prems Some] 
      have "started_in_order m0 (snd (start_process os n m))" by simp
      from Cons.IH [OF this] Some True show ?thesis by simp
    next
      case False
      with Cons.IH [OF Cons.prems] Some show ?thesis by auto
    qed
  qed
qed

lemma started_in_order_start_all:
  "started_in_order m0 m \<Longrightarrow> started_in_order m0 (start_all os m)"
proof (induction os m rule: start_all.induct)
  case (1 os m)
  obtain p m' where pass: "start_pass os (map fst (processes m)) m False = (p, m')"
    by (cases "start_pass os (map fst (processes m)) m False")
  have a: "started_in_order m0 m'"
    using started_in_order_pass [OF "1.prems", of os "map fst (processes m)" False] pass by simp
  show ?case
  proof (cases p)
    case True
    with "1.IH" [OF pass [symmetric] refl _ a] pass show ?thesis
      by (subst start_all.simps) simp
  next
    case False
    with pass a show ?thesis by (subst start_all.simps) simp
  qed
qed

lemma start_all_dependencies:
  assumes "get_process_state k m \<noteq> RUNNING" "find_process k (start_all os m) = Some info"
    and "state info = RUNNING" "d \<in> set (depends_on (config info))"
  shows "get_process_state d (start_all os m) = RUNNING"
proof -
  have "check_dependencies_ready (config info) (start_all os m)"
    using started_in_order_start_all [OF started_in_order_refl, of m os] assms(1-3)
    by (simp add: started_in_order_def)
  from check_dependencies_readyD [OF this assms(4)] show ?thesis .
qed

subsection \<open>The restart counter\<close>

text \<open>No step writes \<^verbatim>\<open>restart_count\<close>: a record keeps the count it was registered with.\<close>

lemma restart_count_step:
  assumes "step m m'" "find_process n m = Some i" "find_process n m' = Some i'"
  shows "restart_count i' = restart_count i"
  using assms(1)
proof cases
  case (step_start os k)
  with assms(2-) show ?thesis
    by (cases "find_process k m") (auto simp add: find_start split: if_splits)
next
  case step_clear
  with assms(3) show ?thesis by (simp add: find_process_def)
qed (use assms(2-) in \<open>auto simp add: find_register find_stop find_modify split: if_splits\<close>)

subsection \<open>The concrete supervisors\<close>

lemmas run_defs =
  register_process_def start_process_def spawn_process_def stop_process_def restart_process_def
  handle_process_crash_def check_dependencies_ready_def find_process_def modify_def fork_def
  kill_def sleep_for_def new_ProcessInfo_def new_ProcessManager_def get_process_state_def
  test_config_def os_ok_def Let_def

lemma m_X_eq:
  "m_X = \<lparr>processes = [(''X'', \<lparr>config = test_config ''X'' [], state = RUNNING,
              platform_handle = Some 100, pid = 100, restart_count = 0, last_error = []\<rparr>)],
          running = False, fork_calls = 1, os_log = [Fork (ForkParent 100), MonitorThread ''X'']\<rparr>"
  by (simp add: m_X_def run_defs)

lemma m_AB_eq:
  "m_AB = \<lparr>processes =
            [(''A'', \<lparr>config = test_config ''A'' [], state = RUNNING,
              platform_handle = Some 100, pid = 100, restart_count = 0, last_error = []\<rparr>),
             (''B'', \<lparr>config = test_config ''B'' [''A''], state = CREATED,
              platform_handle = None, pid = 0, restart_count = 0, last_error = []\<rparr>)],
          running = False, fork_calls = 1, os_log = [Fork (ForkParent 100), MonitorThread ''A'']\<rparr>"
  by (simp add: m_AB_def run_defs)

text \<open>
  \<^verbatim>\<open>start_all\<close> on a table whose key order is against the dependency: \<^verbatim>\<open>A\<close> depends on
  \<^verbatim>\<open>Z\<close>. The first pass skips \<^verbatim>\<open>A\<close> and starts \<^verbatim>\<open>Z\<close>, the second starts \<^verbatim>\<open>A\<close>.
\<close>

lemma start_all_m_AZ:
  "map fst (processes m_AZ) = [''A'', ''Z'']
   \<and> os_log (start_all os_ok m_AZ)
       = [Fork (ForkParent 100), MonitorThread ''Z'', Fork (ForkParent 101), MonitorThread ''A'']
   \<and> map (\<lambda>(k, i). (k, state i)) (processes (start_all os_ok m_AZ))
       = [(''A'', RUNNING), (''Z'', RUNNING)]"
  by (simp add: m_AZ_def start_all.simps run_defs)

section \<open>The claims\<close>

subsection \<open>C1: \<^verbatim>\<open>restart_process\<close> and the restart counter\<close>

text \<open>
  Claim C1 says that \<^verbatim>\<open>restart_process\<close> stops gracefully, waits 500 ms, starts again and
  adds one to \<^verbatim>\<open>restart_count\<close>, so that a process that keeps crashing under
  \<^verbatim>\<open>auto_restart\<close> with \<^verbatim>\<open>max_restart_attempts = 2\<close> ends \<^verbatim>\<open>CRASHED\<close> with a count of 2.
  The theorem runs the code at \<^verbatim>\<open>X\<close>, registered with that policy and running:
  \<^verbatim>\<open>restart_process\<close> does stop (SIGTERM, two seconds, SIGKILL), sleep 500 ms and
  fork again, but the count is 0 before and 0 after; and after three crashes in a row,
  each handled by \<^verbatim>\<open>handle_process_crash\<close>, \<^verbatim>\<open>X\<close> is \<^verbatim>\<open>RUNNING\<close> again with a count of 0,
  because the guard \<^verbatim>\<open>restart_count < max_restart_attempts\<close> never sees the count move.
\<close>

theorem restart_process_leaves_restart_count:
  "fst (restart_process os_ok ''X'' m_X)
   \<and> os_log (snd (restart_process os_ok ''X'' m_X)) =
       os_log m_X @ [Kill 100 SIGTERM, Sleep 2000, Kill 100 SIGKILL, Sleep 500,
                     Fork (ForkParent 101), MonitorThread ''X'']
   \<and> map_option restart_count (find_process ''X'' m_X) = Some 0
   \<and> map_option restart_count (find_process ''X'' (snd (restart_process os_ok ''X'' m_X))) = Some 0
   \<and> map_option (\<lambda>m. (get_process_state ''X'' m, map_option restart_count (find_process ''X'' m)))
        (Option.bind (Option.bind (handle_process_crash os_ok ''X'' m_X)
           (handle_process_crash os_ok ''X'')) (handle_process_crash os_ok ''X''))
       = Some (RUNNING, Some 0)"
  by (simp add: m_X_eq run_defs)

subsection \<open>C2: registration with an unknown dependency\<close>

text \<open>
  Claim C2 says that \<^verbatim>\<open>register_process\<close> fails, and adds nothing, when \<^verbatim>\<open>depends_on\<close>
  names a process that is not registered. Counterexample to C2: on the empty table, the
  configuration \<^verbatim>\<open>B\<close> that depends on the unregistered \<^verbatim>\<open>ghost\<close> is accepted and its
  record is in the table afterwards.
\<close>

theorem register_process_unknown_dependency_accepted:
  "find_process ''ghost'' new_ProcessManager = None
   \<and> ''ghost'' \<in> set (depends_on (test_config ''B'' [''ghost'']))
   \<and> fst (register_process (test_config ''B'' [''ghost'']) new_ProcessManager)
   \<and> find_process ''B'' (snd (register_process (test_config ''B'' [''ghost'']) new_ProcessManager))
       = Some (new_ProcessInfo (test_config ''B'' [''ghost'']))"
  by (simp add: run_defs)

text \<open>
  Claim C2 as amended: \<^verbatim>\<open>register_process\<close> fails exactly when the name is already in
  the table, and then leaves the table as it is; otherwise it adds the record, in state
  \<^verbatim>\<open>CREATED\<close>, whatever \<^verbatim>\<open>depends_on\<close> holds. A dependency that is not registered is met
  at start: \<^verbatim>\<open>start_process\<close> on the new record fails and changes nothing.
\<close>

theorem register_process_rejects_duplicates_only:
  "fst (register_process cfg m) = (find_process (name cfg) m = None)
   \<and> (find_process (name cfg) m \<noteq> None \<longrightarrow> snd (register_process cfg m) = m)
   \<and> (find_process (name cfg) m = None \<longrightarrow>
        find_process (name cfg) (snd (register_process cfg m)) = Some (new_ProcessInfo cfg)
        \<and> (d \<in> set (depends_on cfg) \<and> find_process d m = None \<longrightarrow>
             start_process os (name cfg) (snd (register_process cfg m))
               = (False, snd (register_process cfg m))))"
proof -
  have unready: "\<not> check_dependencies_ready cfg (snd (register_process cfg m))"
    if "find_process (name cfg) m = None" "d \<in> set (depends_on cfg)" "find_process d m = None"
    using that
    by (auto simp add: check_dependencies_ready_def list_all_iff find_register new_ProcessInfo_def
          intro!: bexI [of _ d])
  have 1: "fst (register_process cfg m) = (find_process (name cfg) m = None)"
    by (simp add: register_process_def)
  have 2: "find_process (name cfg) m \<noteq> None \<longrightarrow> snd (register_process cfg m) = m"
    by (simp add: register_process_def)
  have 3: "find_process (name cfg) (snd (register_process cfg m)) = Some (new_ProcessInfo cfg)"
    if "find_process (name cfg) m = None"
    using that by (simp add: find_register)
  have 4: "start_process os (name cfg) (snd (register_process cfg m))
             = (False, snd (register_process cfg m))"
    if "find_process (name cfg) m = None" "d \<in> set (depends_on cfg)" "find_process d m = None"
    using unready [OF that] 3 [OF that(1)]
    by (intro start_process_refused) (simp add: new_ProcessInfo_def)
  from 1 2 3 4 show ?thesis by blast
qed

text \<open>
  Witness for the amended C2, at the configuration \<^verbatim>\<open>B\<close> depending on \<^verbatim>\<open>ghost\<close> and the
  empty table: registered, and refused at start.
\<close>

theorem register_process_rejects_duplicates_only_witness:
  "fst (register_process (test_config ''B'' [''ghost'']) new_ProcessManager)
   \<and> find_process ''B'' (snd (register_process (test_config ''B'' [''ghost'']) new_ProcessManager))
       = Some (new_ProcessInfo (test_config ''B'' [''ghost'']))
   \<and> \<not> fst (start_process os_ok ''B''
            (snd (register_process (test_config ''B'' [''ghost'']) new_ProcessManager)))"
  using register_process_rejects_duplicates_only
          [where cfg = "test_config ''B'' [''ghost'']" and m = new_ProcessManager
             and d = "''ghost''" and os = os_ok]
  by (simp add: find_process_def new_ProcessManager_def test_config_def)

subsection \<open>C3: decoding an encoded envelope\<close>

text \<open>
  Claim C3 says that an envelope accepted by the validator survives encoding, decoding and
  encoding again. \<^verbatim>\<open>from_json\<close> does not read its argument: at the envelope
  \<^verbatim>\<open>ping_msg\<close>, which the validator accepts, and whatever the two uninitialised fields
  hold, the decoded envelope is not \<^verbatim>\<open>ping_msg\<close> and its encoding is not the encoding
  of \<^verbatim>\<open>ping_msg\<close>.
\<close>

theorem from_json_loses_envelope:
  "fst (validate_message ping_msg e)
   \<and> from_json junk_type junk_timestamp (to_json ping_msg) \<noteq> ping_msg
   \<and> to_json (from_json junk_type junk_timestamp (to_json ping_msg)) \<noteq> to_json ping_msg"
proof (intro conjI)
  show "fst (validate_message ping_msg e)"
    by (simp add: validate_message_def is_safe_json_def ping_msg_def)
  show "from_json junk_type junk_timestamp (to_json ping_msg) \<noteq> ping_msg"
    by (simp add: from_json_def ping_msg_def)
  show "to_json (from_json junk_type junk_timestamp (to_json ping_msg)) \<noteq> to_json ping_msg"
    unfolding to_json_ping_msg by (simp add: to_json_def from_json_def show_ordinal)
qed

text \<open>The same for every accepted envelope: the decoded source is empty, the accepted one is not.\<close>

lemma from_json_never_inverts:
  "fst (validate_message msg e) \<Longrightarrow> from_json junk_type junk_timestamp (to_json msg) \<noteq> msg"
  by (auto simp add: validate_message_def from_json_def split: if_splits)

subsection \<open>C4: the wire format\<close>

text \<open>
  Claim C4 says that the encoding is newline-terminated JSON whose \<^verbatim>\<open>type\<close> field is the
  unquoted ordinal of the kind, with \<^verbatim>\<open>data\<close> inlined. Counterexample to C4: the encoding
  of \<^verbatim>\<open>ping_msg\<close>, a \<^verbatim>\<open>COMMAND\<close>, carries the ordinal between double quotes; it does not
  begin with \<^verbatim>\<open>{"type":0,\<close>.
\<close>

theorem to_json_type_is_quoted:
  "to_json ping_msg =
     ''{\"type\":\"0\",\"source\":\"a\",\"target\":\"sup\",\"command\":\"ping\",\"data\":{},\"timestamp\":1,\"message_id\":\"m1\"}''
   \<and> take 10 (to_json ping_msg) \<noteq> ''{\"type\":0,''"
  by (simp add: to_json_def ping_msg_def show_int_def show_nat_digit digit_char_def)

text \<open>
  Claim C4 as amended: for every envelope, \<^verbatim>\<open>StdioChannel::send\<close> writes the text of
  \<^verbatim>\<open>to_json\<close> followed by one newline; in that text the \<^verbatim>\<open>type\<close> field is the ordinal
  of the kind (\<^verbatim>\<open>COMMAND\<close> 0, \<^verbatim>\<open>RESPONSE\<close> 1, \<^verbatim>\<open>EVENT\<close> 2, \<^verbatim>\<open>HEARTBEAT\<close> 3, \<^verbatim>\<open>SHUTDOWN\<close> 4,
  \<^verbatim>\<open>ERROR\<close> 5) as one decimal digit between double quotes, and \<^verbatim>\<open>data\<close> is the payload
  as it is, with no quotes added.
\<close>

theorem to_json_wire_format:
  "fst (StdioChannel_send write_result msg) = to_json msg @ [CHR 0x0A]
   \<and> to_json msg =
       ''{\"type\":\"''
       @ [case type msg of COMMAND \<Rightarrow> CHR ''0'' | RESPONSE \<Rightarrow> CHR ''1'' | EVENT \<Rightarrow> CHR ''2''
          | HEARTBEAT \<Rightarrow> CHR ''3'' | SHUTDOWN \<Rightarrow> CHR ''4'' | ERROR \<Rightarrow> CHR ''5'']
       @ ''\",\"source\":\"'' @ source_process msg
       @ ''\",\"target\":\"'' @ target_process msg
       @ ''\",\"command\":\"'' @ command msg
       @ ''\",\"data\":'' @ data msg
       @ '',\"timestamp\":'' @ show_nat (unat (timestamp msg))
       @ '',\"message_id\":\"'' @ message_id msg @ ''\"}''"
  by (simp add: StdioChannel_send_def Let_def to_json_def show_ordinal)

subsection \<open>C5: starting a process that is already running\<close>

text \<open>
  Claim C5 says that \<^verbatim>\<open>start_process\<close> fails, and spawns nothing, when the process is in
  a state other than \<^verbatim>\<open>CREATED\<close>, \<^verbatim>\<open>STOPPED\<close> or \<^verbatim>\<open>CRASHED\<close>. Counterexample to C5: \<^verbatim>\<open>X\<close>
  is \<^verbatim>\<open>RUNNING\<close>, and \<^verbatim>\<open>start_process\<close> succeeds on it and forks a second child.
\<close>

theorem start_process_respawns_running:
  "get_process_state ''X'' m_X = RUNNING
   \<and> fst (start_process os_ok ''X'' m_X)
   \<and> os_log (snd (start_process os_ok ''X'' m_X))
       = os_log m_X @ [Fork (ForkParent 101), MonitorThread ''X'']"
  by (simp add: m_X_eq run_defs)

text \<open>
  Claim C5 as amended: \<^verbatim>\<open>start_process\<close> does not read the state of the process. It
  fails and changes nothing when the name is not registered or when some dependency is
  not registered and \<^verbatim>\<open>RUNNING\<close>; otherwise it forks, whatever the state, succeeds exactly
  when the fork does, and leaves the process \<^verbatim>\<open>RUNNING\<close>, or \<^verbatim>\<open>CRASHED\<close> when the fork
  failed.
\<close>

theorem start_process_ignores_state:
  "(case find_process n m of
      None \<Rightarrow> start_process os n m = (False, m)
    | Some info \<Rightarrow>
        if check_dependencies_ready (config info) m
        then fst (start_process os n m) = (os (fork_calls m) \<noteq> ForkFailed)
             \<and> os_log (snd (start_process os n m)) =
                 os_log m @ Fork (os (fork_calls m)) #
                   (case os (fork_calls m) of ForkFailed \<Rightarrow> [] | ForkParent p \<Rightarrow> [MonitorThread n])
             \<and> get_process_state n (snd (start_process os n m)) =
                 (if os (fork_calls m) = ForkFailed then CRASHED else RUNNING)
        else start_process os n m = (False, m))"
proof (cases "find_process n m")
  case None
  then show ?thesis by (simp add: start_process_refused)
next
  case (Some info)
  show ?thesis
  proof (cases "check_dependencies_ready (config info) m")
    case True
    have "state (started (os (fork_calls m)) info) =
            (if os (fork_calls m) = ForkFailed then CRASHED else RUNNING)"
      by (cases "os (fork_calls m)") (simp_all add: started_def)
    then show ?thesis
      using Some True
      by (simp add: start_process_spawns [OF Some True] get_process_state_def find_modify)
  next
    case False
    with Some show ?thesis by (simp add: start_process_refused)
  qed
qed

text \<open>Witness for the amended C5, at the running \<^verbatim>\<open>X\<close>: registered, running, and started again.\<close>

theorem start_process_ignores_state_witness:
  "find_process ''X'' m_X \<noteq> None
   \<and> get_process_state ''X'' m_X = RUNNING
   \<and> fst (start_process os_ok ''X'' m_X)
   \<and> get_process_state ''X'' (snd (start_process os_ok ''X'' m_X)) = RUNNING"
  using start_process_ignores_state [where n = "''X''" and m = m_X and os = os_ok]
  by (simp add: m_X_eq find_process_def get_process_state_def check_dependencies_ready_def
        test_config_def os_ok_def)

subsection \<open>C6: no process runs before its dependencies\<close>

text \<open>
  Claim C6: in every reachable state of the supervisor, no registered process enters
  \<^verbatim>\<open>RUNNING\<close> before every process named in its \<^verbatim>\<open>depends_on\<close> is \<^verbatim>\<open>RUNNING\<close>. Stated
  on the steps of the supervisor: whenever a step takes a process \<open>n\<close> from not
  \<^verbatim>\<open>RUNNING\<close> (or not registered) to \<^verbatim>\<open>RUNNING\<close>, the process was registered before the
  step with the configuration it has after it, and every name in its \<^verbatim>\<open>depends_on\<close> is
  a registered process whose state is \<^verbatim>\<open>RUNNING\<close> before the step, and still after it.
  The theorem holds from every state, so from every reachable one; \<^verbatim>\<open>restart_process\<close>,
  \<^verbatim>\<open>handle_process_crash\<close>, \<^verbatim>\<open>start_all\<close>, \<^verbatim>\<open>stop_all\<close> and \<^verbatim>\<open>shutdown\<close> are sequences of
  such steps (lemmas \<open>restart_process_steps\<close> to \<open>shutdown_steps\<close>), so it applies
  to each start they make. For \<^verbatim>\<open>start_all\<close> as a whole, lemma \<open>start_all_dependencies\<close>
  gives the same for the state it returns.
\<close>

theorem running_only_after_dependencies:
  assumes "step m m'" "get_process_state n m \<noteq> RUNNING"
    and "find_process n m' = Some info'" "state info' = RUNNING"
  shows "(\<exists>info. find_process n m = Some info \<and> config info = config info')
    \<and> (\<forall>d \<in> set (depends_on (config info')).
          find_process d m \<noteq> None
          \<and> get_process_state d m = RUNNING \<and> get_process_state d m' = RUNNING)"
proof -
  note checked = step_to_running [OF assms]
  have "find_process d m \<noteq> None \<and> get_process_state d m = RUNNING \<and> get_process_state d m' = RUNNING"
    if d: "d \<in> set (depends_on (config info'))" for d
  proof -
    from checked d have before: "get_process_state d m = RUNNING"
      by (blast intro: check_dependencies_readyD)
    from checked d have after: "get_process_state d m' = RUNNING"
      by (blast intro: check_dependencies_readyD)
    from before have "find_process d m \<noteq> None"
      by (auto simp add: get_process_state_def split: option.splits)
    with before after show ?thesis by simp
  qed
  with checked show ?thesis by blast
qed

text \<open>
  Witness for C6: \<^verbatim>\<open>A\<close> is running and \<^verbatim>\<open>B\<close>, which depends on \<^verbatim>\<open>A\<close>, is registered;
  starting \<^verbatim>\<open>B\<close> is a step that takes it to \<^verbatim>\<open>RUNNING\<close>, with its dependency running
  before and after.
\<close>

theorem running_only_after_dependencies_witness:
  "step m_AB (snd (start_process os_ok ''B'' m_AB))
   \<and> get_process_state ''B'' m_AB \<noteq> RUNNING
   \<and> get_process_state ''B'' (snd (start_process os_ok ''B'' m_AB)) = RUNNING
   \<and> map_option (depends_on \<circ> config) (find_process ''B'' m_AB) = Some [''A'']
   \<and> get_process_state ''A'' m_AB = RUNNING
   \<and> get_process_state ''A'' (snd (start_process os_ok ''B'' m_AB)) = RUNNING"
proof -
  let ?i = "\<lparr>config = test_config ''B'' [''A''], state = RUNNING,
              platform_handle = Some 101, pid = 101, restart_count = 0, last_error = []\<rparr>"
  have s: "step m_AB (snd (start_process os_ok ''B'' m_AB))" by (rule step_start)
  have a: "get_process_state ''B'' m_AB \<noteq> RUNNING" by (simp add: m_AB_eq run_defs)
  have f: "find_process ''B'' (snd (start_process os_ok ''B'' m_AB)) = Some ?i"
    by (simp add: m_AB_eq run_defs)
  have r: "state ?i = RUNNING" by simp
  have deps: "depends_on (config ?i) = [''A'']" by (simp add: test_config_def)
  from running_only_after_dependencies [OF s a f r]
  have "(\<exists>info. find_process ''B'' m_AB = Some info \<and> config info = config ?i)
    \<and> get_process_state ''A'' m_AB = RUNNING
    \<and> get_process_state ''A'' (snd (start_process os_ok ''B'' m_AB)) = RUNNING"
    unfolding deps by simp
  with s a f show ?thesis by (auto simp add: get_process_state_def test_config_def)
qed

subsection \<open>C7: the order of the validator's checks\<close>

text \<open>
  Claim C7: \<^verbatim>\<open>validate_message\<close> reports the empty source exactly when the source is
  empty, the empty target exactly when the target is empty and the source is not, the
  empty command exactly when the command is empty and source and target are not; then come
  the oversized payload and the payload that is not JSON. The theorem proves the three
  equivalences and that the one payload check of the code comes last and is a check of
  the length alone, reported as \<^verbatim>\<open>Invalid JSON data\<close>. The last check of the claim is
  missing from the code (\<^verbatim>\<open>is_safe_json\<close> announces it in its comment and leaves it
  to do): the envelope \<^verbatim>\<open>unparsable_msg\<close>, whose payload is the single character
  \<^verbatim>\<open>{\<close>, is accepted.
\<close>

theorem validate_message_checks:
  "(validate_message msg e = (False, ''Source process is empty'') \<longleftrightarrow> source_process msg = [])
   \<and> (validate_message msg e = (False, ''Target process is empty'')
        \<longleftrightarrow> target_process msg = [] \<and> source_process msg \<noteq> [])
   \<and> (validate_message msg e = (False, ''Command is empty'')
        \<longleftrightarrow> command msg = [] \<and> source_process msg \<noteq> [] \<and> target_process msg \<noteq> [])
   \<and> (validate_message msg e = (False, ''Invalid JSON data'')
        \<longleftrightarrow> length (data msg) > 1048576
            \<and> source_process msg \<noteq> [] \<and> target_process msg \<noteq> [] \<and> command msg \<noteq> [])
   \<and> data unparsable_msg = ''{''
   \<and> validate_message unparsable_msg e = (True, e)"
  by (simp add: validate_message_def is_safe_json_def unparsable_msg_def ping_msg_def)

subsection \<open>C8: the payload limit\<close>

text \<open>
  Claim C8: for every envelope with non-empty source, target and command, a payload of
  exactly 1 MiB (1048576 bytes) is accepted and a payload of 1 MiB plus one byte is
  rejected.
\<close>

theorem validate_message_payload_limit:
  "source_process msg \<noteq> [] \<Longrightarrow> target_process msg \<noteq> [] \<Longrightarrow> command msg \<noteq> [] \<Longrightarrow>
   (length (data msg) = 1048576 \<longrightarrow> fst (validate_message msg e))
   \<and> (length (data msg) = 1048576 + 1 \<longrightarrow> \<not> fst (validate_message msg e))"
  by (simp add: validate_message_def is_safe_json_def)

text \<open>Witness for C8: \<^verbatim>\<open>ping_msg\<close> with a payload of 1048576 and of 1048577 bytes.\<close>

theorem validate_message_payload_limit_witness:
  "fst (validate_message (ping_msg\<lparr>data := replicate 1048576 (CHR ''x'')\<rparr>) [])
   \<and> \<not> fst (validate_message (ping_msg\<lparr>data := replicate 1048577 (CHR ''x'')\<rparr>) [])"
  using validate_message_payload_limit [of "ping_msg\<lparr>data := replicate 1048576 (CHR ''x'')\<rparr>" "[]"]
        validate_message_payload_limit [of "ping_msg\<lparr>data := replicate 1048577 (CHR ''x'')\<rparr>" "[]"]
  by (simp add: ping_msg_def)

subsection \<open>C9: handlers run in the order of their registration\<close>

text \<open>
  Claim C9 says that after \<open>h1\<close> and then \<open>h2\<close> are registered under the same command,
  routing an envelope with that command invokes \<open>h1\<close> then \<open>h2\<close>, once each, and that an
  envelope whose command has no handler invokes nothing. Counterexample to C9: two
  handlers that append their number to a log, the first of which throws after it has
  done so. Routing \<^verbatim>\<open>ping\<close> ends with the exception of the first handler and handler 2
  is not in the log: it was never invoked.
\<close>

theorem route_message_stops_at_throwing_handler:
  "route_message ping_msg
     (register_handler ''ping'' (\<lambda>msg w. Returns (w @ [(2::nat, message_id msg)]))
       (register_handler ''ping'' (\<lambda>msg w. Throws (w @ [(1, message_id msg)])) Map.empty)) []
     = Throws [(1, ''m1'')]"
  by (simp add: route_message_def register_handler_def ping_msg_def)

text \<open>
  Claim C9 as amended: registering \<open>h1\<close> and then \<open>h2\<close> under a command puts them, in
  that order, behind the handlers the command already has. Routing an envelope with
  that command, when the earlier handlers return, invokes \<open>h1\<close> once and, when \<open>h1\<close>
  returns, then \<open>h2\<close> once, on the state \<open>h1\<close> has left; in a fresh router nothing
  runs before \<open>h1\<close>. When \<open>h1\<close> throws, \<open>h2\<close> is not invoked and the exception leaves
  \<^verbatim>\<open>route_message\<close>. An envelope whose command has no handler invokes nothing.
\<close>

theorem route_message_registration_order:
  "register_handler (command msg) h2 (register_handler (command msg) h1 handlers) (command msg)
     = Some ((case handlers (command msg) of None \<Rightarrow> [] | Some hs \<Rightarrow> hs) @ [h1, h2])
   \<and> (route_message msg handlers w = Returns w0 \<and> h1 msg w0 = Returns w1 \<longrightarrow>
        route_message msg
          (register_handler (command msg) h2 (register_handler (command msg) h1 handlers)) w
        = h2 msg w1)
   \<and> (route_message msg handlers w = Returns w0 \<and> h1 msg w0 = Throws w1 \<longrightarrow>
        route_message msg
          (register_handler (command msg) h2 (register_handler (command msg) h1 handlers)) w
        = Throws w1)
   \<and> (h1 msg w = Returns w1 \<longrightarrow>
        route_message msg
          (register_handler (command msg) h2 (register_handler (command msg) h1 Map.empty)) w
        = h2 msg w1)
   \<and> (handlers (command msg) = None \<longrightarrow> route_message msg handlers w = Returns w)"
proof (intro conjI impI)
  show "register_handler (command msg) h2 (register_handler (command msg) h1 handlers) (command msg)
     = Some ((case handlers (command msg) of None \<Rightarrow> [] | Some hs \<Rightarrow> hs) @ [h1, h2])"
    by (rule register_handler_twice)
  show "route_message msg
          (register_handler (command msg) h2 (register_handler (command msg) h1 handlers)) w
        = h2 msg w1"
    if "route_message msg handlers w = Returns w0 \<and> h1 msg w0 = Returns w1"
    using that by (simp add: route_message_registered)
  show "route_message msg
          (register_handler (command msg) h2 (register_handler (command msg) h1 handlers)) w
        = Throws w1"
    if "route_message msg handlers w = Returns w0 \<and> h1 msg w0 = Throws w1"
    using that by (simp add: route_message_registered)
  show "route_message msg
          (register_handler (command msg) h2 (register_handler (command msg) h1 Map.empty)) w
        = h2 msg w1"
    if "h1 msg w = Returns w1"
    using that by (simp add: route_message_registered) (simp add: route_message_def)
  show "route_message msg handlers w = Returns w" if "handlers (command msg) = None"
    using that by (simp add: route_message_def)
qed

text \<open>
  Witness for the amended C9: two handlers that append their number to a log and
  return; \<^verbatim>\<open>ping\<close> reaches handler 1 then handler 2, \<^verbatim>\<open>pong\<close> reaches none.
\<close>

theorem route_message_registration_order_witness:
  "route_message ping_msg
     (register_handler ''ping'' (\<lambda>msg w. Returns (w @ [(2::nat, message_id msg)]))
       (register_handler ''ping'' (\<lambda>msg w. Returns (w @ [(1, message_id msg)])) Map.empty)) []
     = Returns [(1, ''m1''), (2, ''m1'')]
   \<and> route_message (ping_msg\<lparr>command := ''pong''\<rparr>)
     (register_handler ''ping'' (\<lambda>msg w. Returns (w @ [(2::nat, message_id msg)]))
       (register_handler ''ping'' (\<lambda>msg w. Returns (w @ [(1, message_id msg)])) Map.empty)) []
     = Returns []"
  using route_message_registration_order
          [where msg = ping_msg and ?h2.0 = "\<lambda>msg w. Returns (w @ [(2::nat, message_id msg)])"
             and ?h1.0 = "\<lambda>msg w. Returns (w @ [(1, message_id msg)])" and w = "[]"
             and ?w1.0 = "[(1, ''m1'')]" and handlers = Map.empty and ?w0.0 = "[]"]
        route_message_registration_order
          [where msg = "ping_msg\<lparr>command := ''pong''\<rparr>" and w = "[]"
             and handlers = "register_handler ''ping'' (\<lambda>msg w. Returns (w @ [(2::nat, message_id msg)]))
                (register_handler ''ping'' (\<lambda>msg w. Returns (w @ [(1, message_id msg)])) Map.empty)"]
  by (simp add: ping_msg_def register_handler_def)

subsection \<open>C10: the state of an unknown process\<close>

text \<open>
  Claim C10: for a name that is not in the process table, never registered or removed by
  \<^verbatim>\<open>shutdown\<close>, \<^verbatim>\<open>get_process_state\<close> returns \<^verbatim>\<open>STOPPED\<close>.
\<close>

theorem get_process_state_unknown_is_STOPPED:
  "(find_process n m = None \<longrightarrow> get_process_state n m = STOPPED)
   \<and> get_process_state n new_ProcessManager = STOPPED
   \<and> get_process_state n (shutdown m) = STOPPED"
  by (simp add: get_process_state_def shutdown_def find_process_def new_ProcessManager_def)

text \<open>
  Witness for C10: a name that was never registered, and \<^verbatim>\<open>X\<close>, running before the
  shutdown and reported \<^verbatim>\<open>STOPPED\<close> after it.
\<close>

theorem get_process_state_unknown_is_STOPPED_witness:
  "find_process ''nonexistent'' m_X = None
   \<and> get_process_state ''nonexistent'' m_X = STOPPED
   \<and> get_process_state ''X'' m_X = RUNNING
   \<and> get_process_state ''X'' (shutdown m_X) = STOPPED"
  using get_process_state_unknown_is_STOPPED [where n = "''nonexistent''" and m = m_X]
        get_process_state_unknown_is_STOPPED [where n = "''X''" and m = m_X]
  by (simp add: m_X_eq find_process_def get_process_state_def)

end
